theory Spec2Isabelle
  imports Complex_Main "HOL-Library.AList" "HOL-Library.Multiset"
begin

section \<open>Instants, clock hours and the interval table\<close>

text \<open>
  A JavaScript \<open>Date\<close> holds a whole number of milliseconds since the epoch; the model
  takes that number as an \<open>int\<close>. Local time follows the time zone of the host, which is
  a parameter \<open>z\<close> of every function that reads the local calendar. The \<open>Invalid Date\<close>
  value and the end of the representable range (8.64e15 ms either side of the epoch) are
  outside the model. Numbers that the source computes in double precision (durations in
  days, averages) are rationals here.
\<close>

type_synonym instant = int

definition msPerDay :: int where
  "msPerDay = 86400000"

definition msPerHour :: int where
  "msPerHour = 3600000"

definition REVIEW_WINDOWS :: "int list" where
  "REVIEW_WINDOWS = [9, 18]"

definition SRS_INTERVALS_H :: "int list" where
  "SRS_INTERVALS_H = [4, 8, 23, 47, 167, 335, 719, 2879]"

text \<open>
  A time zone as ECMAScript sees it: \<open>utc_offset z t\<close> is the offset of local time from
  UTC in force at the instant \<open>t\<close> (\<open>LocalTZA(t, true)\<close>), and \<open>local_offset z l\<close> is the
  offset by which the local time value \<open>l\<close> is read (\<open>LocalTZA(l, false)\<close>); a local time
  that a change of offset skips or repeats is read with the offset before the change.
\<close>

record zone =
  utc_offset :: "instant \<Rightarrow> int"
  local_offset :: "int \<Rightarrow> int"

definition LocalTime :: "zone \<Rightarrow> instant \<Rightarrow> int" where
  "LocalTime z t = t + utc_offset z t"

definition UTC :: "zone \<Rightarrow> int \<Rightarrow> instant" where
  "UTC z l = l - local_offset z l"

text \<open>\<open>c.setDate(c.getDate() + k)\<close>: the local time value moves by \<open>k\<close> calendar days (the
  time within the day is kept) and is read back as an instant.\<close>

definition setDate_plus :: "zone \<Rightarrow> instant \<Rightarrow> int \<Rightarrow> instant" where
  "setDate_plus z c k = UTC z (LocalTime z c + k * msPerDay)"

text \<open>\<open>c.setHours(h, 0, 0, 0)\<close>: the local day of \<open>c\<close> at local time \<open>h:00:00.000\<close>, read
  back as an instant.\<close>

definition setHours :: "zone \<Rightarrow> instant \<Rightarrow> int \<Rightarrow> instant" where
  "setHours z c h = UTC z ((LocalTime z c div msPerDay) * msPerDay + h * msPerHour)"

section \<open>Window scheduler\<close>

text \<open>The inner loop of \<open>nextWindow\<close>: \<open>candidate\<close> is mutated by each \<open>setHours\<close>; the
  first candidate strictly after \<open>d\<close> leaves the function.\<close>

fun scan_hours :: "zone \<Rightarrow> instant \<Rightarrow> instant \<Rightarrow> int list \<Rightarrow> instant option" where
  "scan_hours z d candidate [] = None"
| "scan_hours z d candidate (h # hs) =
     (let candidate' = setHours z candidate h
      in if candidate' > d then Some candidate' else scan_hours z d candidate' hs)"

text \<open>The outer loop over \<open>dayOffset\<close>, with the fallback \<open>return d\<close> after the last day.\<close>

fun scan_days :: "zone \<Rightarrow> instant \<Rightarrow> int list \<Rightarrow> instant" where
  "scan_days z d [] = d"
| "scan_days z d (dayOffset # rest) =
     (case scan_hours z d (setDate_plus z d dayOffset) REVIEW_WINDOWS of
        Some c \<Rightarrow> c
      | None \<Rightarrow> scan_days z d rest)"

definition nextWindow :: "zone \<Rightarrow> instant \<Rightarrow> instant" where
  "nextWindow z availableAt = scan_days z availableAt [0..14]"

text \<open>An instant lies on a review window when the time of day on the local clock is one
  of the configured clock hours, to the millisecond.\<close>

definition on_window :: "zone \<Rightarrow> instant \<Rightarrow> bool" where
  "on_window z u =
     (LocalTime z u mod msPerDay \<in> set (map (\<lambda>h. h * msPerHour) REVIEW_WINDOWS))"

text \<open>The instant that local day \<open>D\<close>, hour \<open>h\<close> is read as.\<close>

definition window_at :: "zone \<Rightarrow> int \<Rightarrow> int \<Rightarrow> instant" where
  "window_at z D h = UTC z (D * msPerDay + h * msPerHour)"

text \<open>
  A zone is regular when its changes of offset keep clear of the day boundary and of the
  review hours: the local calendar date never goes backwards; reading a local time value
  as an instant keeps its calendar date; on every calendar day the local clock shows
  09:00 at exactly one instant and 18:00 at exactly one instant, the ones the local time
  values are read as; and 09:00 comes before 18:00. Every zone with a fixed offset is
  regular, and so is US Eastern time with the daylight-saving changes of 2024 defined
  below; both facts are proved with the properties of the scheduler.
\<close>

definition regular_zone :: "zone \<Rightarrow> bool" where
  "regular_zone z =
     ((\<forall>t t'. t \<le> t' \<longrightarrow> LocalTime z t div msPerDay \<le> LocalTime z t' div msPerDay) \<and>
      (\<forall>l. LocalTime z (UTC z l) div msPerDay = l div msPerDay) \<and>
      (\<forall>D u. (LocalTime z u = D * msPerDay + 9 * msPerHour) = (u = window_at z D 9)) \<and>
      (\<forall>D u. (LocalTime z u = D * msPerDay + 18 * msPerHour) = (u = window_at z D 18)) \<and>
      (\<forall>D. window_at z D 9 < window_at z D 18))"

definition fixed_zone :: "int \<Rightarrow> zone" where
  "fixed_zone off = \<lparr> utc_offset = (\<lambda>t. off), local_offset = (\<lambda>l. off) \<rparr>"

text \<open>
  US Eastern time with its two changes of 2024: UTC-5 until 2024-03-10 07:00 UTC (02:00
  local, when clocks go to 03:00), UTC-4 until 2024-11-03 06:00 UTC (02:00 local, when
  clocks go back to 01:00), UTC-5 afterwards. The changes of other years are not in it.
\<close>

definition eastern_2024 :: zone where
  "eastern_2024 =
     \<lparr> utc_offset = (\<lambda>t. if 1710054000000 \<le> t \<and> t < 1730613600000
                          then - 14400000 else - 18000000),
       local_offset = (\<lambda>l. if 1710039600000 \<le> l \<and> l < 1730599200000
                            then - 14400000 else - 18000000) \<rparr>"

section \<open>Ladder simulator\<close>

text \<open>The \<open>while (stage < 4)\<close> loop of \<open>simulateToGuru\<close>; the arguments are the initial
  values of \<open>reviewDate\<close> and \<open>stage\<close>. Stages are natural numbers (0 is Apprentice 1).\<close>

function simulateToGuru :: "zone \<Rightarrow> instant \<Rightarrow> nat \<Rightarrow> instant" where
  "simulateToGuru z reviewDate stage =
     (if stage < 4
      then simulateToGuru z
             (nextWindow z (reviewDate + SRS_INTERVALS_H ! stage * msPerHour)) (Suc stage)
      else reviewDate)"
  by pat_completeness auto
termination
  by (relation "measure (\<lambda>(z, reviewDate, stage). 4 - stage)") auto

text \<open>The same loop, returning next to the instant the number of times its body ran.\<close>

function simulateToGuru_iterations :: "zone \<Rightarrow> instant \<Rightarrow> nat \<Rightarrow> instant \<times> nat" where
  "simulateToGuru_iterations z reviewDate stage =
     (if stage < 4
      then (case simulateToGuru_iterations z
                   (nextWindow z (reviewDate + SRS_INTERVALS_H ! stage * msPerHour)) (Suc stage)
            of (r, n) \<Rightarrow> (r, Suc n))
      else (reviewDate, 0))"
  by pat_completeness auto
termination
  by (relation "measure (\<lambda>(z, reviewDate, stage). 4 - stage)") auto

section \<open>Level attempts and run segmentation\<close>

text \<open>
  One record of \<open>/v2/level_progressions\<close> (the \<open>data\<close> object). The ISO-8601 strings of
  the API are represented by the instants they parse to, \<open>null\<close> by \<open>None\<close>; a string is
  truthy, \<open>null\<close> is not. \<open>started_at\<close> is a required field.
\<close>

record progression =
  level :: nat
  started_at :: instant
  passed_at :: "instant option"
  abandoned_at :: "instant option"

text \<open>\<open>new Date(x)\<close> for a field that may be \<open>null\<close>: \<open>new Date(null)\<close> is the epoch.\<close>

definition date_of :: "instant option \<Rightarrow> instant" where
  "date_of x = (case x of None \<Rightarrow> 0 | Some t \<Rightarrow> t)"

text \<open>The \<open>for (const p of sorted)\<close> loop of \<open>getCurrentRunStart\<close>, with its two variables.\<close>

fun run_walk :: "instant \<Rightarrow> nat \<Rightarrow> progression list \<Rightarrow> instant" where
  "run_walk runStartDate prevLevel [] = runStartDate"
| "run_walk runStartDate prevLevel (p # ps) =
     run_walk (if level p \<le> prevLevel \<and> level p \<le> 5 then started_at p else runStartDate)
       (level p) ps"

text \<open>\<open>Array.prototype.sort\<close> is stable, and so is \<open>sort_key\<close>.\<close>

definition getCurrentRunStart :: "progression list \<Rightarrow> instant option" where
  "getCurrentRunStart progressions =
     (if progressions = [] then None
      else (let sorted = sort_key started_at progressions
            in Some (run_walk (started_at (hd sorted)) 0 sorted)))"

text \<open>The first statement pair of \<open>computeStats\<close> (start-date policy): the attempts that
  started at or after the run start. Against \<open>null\<close> the comparison \<open>>=\<close> reads 0.\<close>

definition currentRun :: "progression list \<Rightarrow> progression list" where
  "currentRun progressions =
     (let runStart = getCurrentRunStart progressions
      in filter (\<lambda>p. started_at p \<ge> date_of runStart) progressions)"

text \<open>
  \<open>getLatestRun\<close> (latest-attempt-per-level policy). The object \<open>byLevel\<close> is an association
  list; \<open>Object.values\<close> lists the values of integer keys in ascending key order.
\<close>

definition keep_latest ::
  "(nat \<times> progression) list \<Rightarrow> progression \<Rightarrow> (nat \<times> progression) list" where
  "keep_latest byLevel p =
     (case map_of byLevel (level p) of
        None \<Rightarrow> AList.update (level p) p byLevel
      | Some q \<Rightarrow>
          if started_at p > started_at q then AList.update (level p) p byLevel else byLevel)"

definition object_values :: "(nat \<times> progression) list \<Rightarrow> progression list" where
  "object_values byLevel = map snd (sort_key fst byLevel)"

definition getLatestRun :: "progression list \<Rightarrow> progression list" where
  "getLatestRun progressions =
     sort_key level (object_values (foldl keep_latest [] progressions))"

section \<open>Pace statistics\<close>

record stats =
  avg :: rat
  median :: rat
  fast :: rat
  slow :: rat
  recent :: rat
  durs :: "rat list"
  sorted_list :: "rat list"
  done_list :: "progression list"

text \<open>\<open>x || y\<close> on numbers: \<open>y\<close> when \<open>x\<close> is 0.\<close>

definition js_or :: "rat \<Rightarrow> rat \<Rightarrow> rat" where
  "js_or x y = (if x = 0 then y else x)"

definition duration_days :: "progression \<Rightarrow> rat" where
  "duration_days p = of_int (date_of (passed_at p) - started_at p) / 86400000"

text \<open>The filter on completed attempts, as written in every variant of \<open>computeStats\<close>.\<close>

definition completed :: "nat \<Rightarrow> progression \<Rightarrow> bool" where
  "completed currentLevel p =
     (passed_at p \<noteq> None \<and> abandoned_at p = None \<and> level p < currentLevel)"

text \<open>The part of \<open>computeStats\<close> from \<open>const durs\<close> to the \<open>return\<close>, which every variant
  shares word for word.\<close>

definition pace_summary :: "progression list \<Rightarrow> stats" where
  "pace_summary dn =
     (let ds = map duration_days dn;
          srt = sort ds;
          n = length srt;
          rec = drop (length ds - 5) ds
      in \<lparr> avg = foldl (\<lambda>s d. s + d) 0 ds / of_nat (length ds),
           median = srt ! nat \<lfloor>(of_nat n :: rat) / 2\<rfloor>,
           fast = js_or (srt ! nat \<lfloor>(of_nat n :: rat) * (1 / 4)\<rfloor>) (srt ! 0),
           slow = js_or (srt ! nat \<lfloor>(of_nat n :: rat) * (3 / 4)\<rfloor>) (srt ! (n - 1)),
           recent = foldl (\<lambda>s d. s + d) 0 rec / of_nat (length rec),
           durs = ds, sorted_list = srt, done_list = dn \<rparr>)"

text \<open>\<open>computeStats\<close> of \<open>app.js\<close> (start-date policy); \<open>null\<close> is \<open>None\<close>.\<close>

definition computeStats :: "progression list \<Rightarrow> nat \<Rightarrow> stats option" where
  "computeStats progressions currentLevel =
     (let dn = filter (completed currentLevel) (currentRun progressions)
      in if length dn < 2 then None
         else Some (pace_summary (sort_key level dn)))"

text \<open>\<open>computeStats\<close> of the variant that segments with \<open>getLatestRun\<close>.\<close>

definition computeStats_latest :: "progression list \<Rightarrow> nat \<Rightarrow> stats option" where
  "computeStats_latest progressions currentLevel =
     (let latest = getLatestRun progressions;
          dn = filter (completed currentLevel) latest
      in if length dn < 2 then None
         else Some (pace_summary dn))"

text \<open>Five attempts at levels 1 to 5 that took 5, 7, 7, 9 and 20 days, and two attempts
  that took 5 and 7 days.\<close>

definition attempt :: "nat \<Rightarrow> int \<Rightarrow> int \<Rightarrow> progression" where
  "attempt l startDay endDay =
     \<lparr> level = l, started_at = startDay * msPerDay,
       passed_at = Some (endDay * msPerDay), abandoned_at = None \<rparr>"

definition five_attempts :: "progression list" where
  "five_attempts =
     [attempt 1 0 5, attempt 2 5 12, attempt 3 12 19, attempt 4 19 28, attempt 5 28 48]"

definition two_attempts :: "progression list" where
  "two_attempts = [attempt 1 0 5, attempt 2 5 12]"

definition one_attempt :: "progression list" where
  "one_attempt = [attempt 1 0 5]"

section \<open>Auxiliary notions for run segmentation\<close>

text \<open>The start instant that the loop of \<open>getCurrentRunStart\<close> assigns last, if it assigns
  any, when it enters the list with \<open>prevLevel = q\<close>.\<close>

fun last_marker :: "nat \<Rightarrow> progression list \<Rightarrow> instant option" where
  "last_marker q [] = None"
| "last_marker q (p # ps) =
     (case last_marker (level p) ps of
        Some m \<Rightarrow> Some m
      | None \<Rightarrow> if level p \<le> q \<and> level p \<le> 5 then Some (started_at p) else None)"

text \<open>The invariant of \<open>byLevel\<close>: every key occurs once and is the level of its value.\<close>

definition level_keyed :: "(nat \<times> progression) list \<Rightarrow> bool" where
  "level_keyed al = (distinct (map fst al) \<and> map fst al = map (level \<circ> snd) al)"

section \<open>Next-level-up forecast\<close>

text \<open>
  One record of \<open>/v2/assignments\<close> (the \<open>data\<close> object), with the same reading of date
  strings as above. The field \<open>started_at\<close> of an assignment is \<open>assignment_started_at\<close>.
\<close>

record assignment =
  subject_type :: string
  srs_stage :: nat
  burned_at :: "instant option"
  assignment_started_at :: "instant option"
  available_at :: "instant option"

text \<open>The objects \<open>{ guruDate, stage, type, availableAt }\<close> built for the blocking items.\<close>

record guru_entry =
  guruDate :: instant
  stage :: nat
  item_type :: string
  availableAt :: instant

record stage_pip =
  pip_stage :: nat
  pip_count :: nat
  pip_label :: string

record next_level =
  levelUpDate :: instant
  blockingCount :: nat
  criticalItem :: "guru_entry option"
  stageBreakdown :: "stage_pip list option"

definition is_blocking :: "assignment \<Rightarrow> bool" where
  "is_blocking d =
     ((subject_type d = ''radical'' \<or> subject_type d = ''kanji'') \<and>
      srs_stage d < 4 \<and> burned_at d = None \<and> assignment_started_at d \<noteq> None)"

text \<open>The callback of \<open>blocking.map\<close>; \<open>now\<close> is the clock reading taken on entry.\<close>

definition simulate_item :: "zone \<Rightarrow> instant \<Rightarrow> assignment \<Rightarrow> guru_entry" where
  "simulate_item z now d =
     (let avail = (case available_at d of Some t \<Rightarrow> t | None \<Rightarrow> now);
          startFrom = (if avail \<le> now then now else avail)
      in \<lparr> guruDate = simulateToGuru z startFrom (srs_stage d), stage = srs_stage d,
           item_type = subject_type d, availableAt = avail \<rparr>)"

definition stage_labels :: "string list" where
  "stage_labels = [''App 1'', ''App 2'', ''App 3'', ''App 4'']"

definition stage_breakdown :: "assignment list \<Rightarrow> stage_pip list" where
  "stage_breakdown blocking =
     filter (\<lambda>s. pip_count s > 0)
       (map (\<lambda>s. \<lparr> pip_stage = s,
                    pip_count = length (filter (\<lambda>a. srs_stage a = s) blocking),
                    pip_label = stage_labels ! s \<rparr>) [0, 1, 2, 3])"

text \<open>
  \<open>computeNextLevel\<close>. The comparator \<open>(a, b) => b.guruDate - a.guruDate\<close> sorts by
  descending date and keeps the order of equal dates, as sorting on the negated date does.
\<close>

definition computeNextLevel :: "zone \<Rightarrow> instant \<Rightarrow> assignment list \<Rightarrow> next_level" where
  "computeNextLevel z now assignments =
     (let blocking = filter is_blocking assignments
      in if length blocking = 0
         then \<lparr> levelUpDate = nextWindow z now, blockingCount = 0,
                criticalItem = None, stageBreakdown = None \<rparr>
         else
           (let guruDates = sort_key (\<lambda>g. - guruDate g) (map (simulate_item z now) blocking);
                kanjiItems = filter (\<lambda>g. item_type g = ''kanji'') guruDates;
                radicalItems = filter (\<lambda>g. item_type g = ''radical'') guruDates;
                lvlUp =
                  (if length kanjiItems > 0
                   then (let idx = \<lfloor>(of_nat (length kanjiItems) :: rat) * (1 / 10)\<rfloor>;
                             sortedKanji = sort_key guruDate kanjiItems
                         in guruDate
                              (sortedKanji ! nat (max 0 (int (length sortedKanji) - 1 - idx))))
                   else guruDate (guruDates ! 0))
            in \<lparr> levelUpDate = lvlUp, blockingCount = length blocking,
                 criticalItem = Some (guruDates ! 0),
                 stageBreakdown = Some (stage_breakdown blocking) \<rparr>))"

text \<open>The simulated mastery instant of one blocking item.\<close>

definition mastery_instant :: "zone \<Rightarrow> instant \<Rightarrow> assignment \<Rightarrow> instant" where
  "mastery_instant z now d =
     simulateToGuru z (max now (case available_at d of Some t \<Rightarrow> t | None \<Rightarrow> now))
       (srs_stage d)"

text \<open>Sample assignments: a radical, a vocabulary item and ten kanji at stage 3 that
  become available on ten successive days; and two blocking radicals next to a kanji that
  is past Guru.\<close>

definition item :: "string \<Rightarrow> nat \<Rightarrow> int \<Rightarrow> assignment" where
  "item ty st availDay =
     \<lparr> subject_type = ty, srs_stage = st, burned_at = None,
       assignment_started_at = Some 0, available_at = Some (availDay * msPerDay) \<rparr>"

definition ten_kanji :: "assignment list" where
  "ten_kanji =
     item ''radical'' 2 0 # item ''vocabulary'' 1 30 #
       map (\<lambda>k. item ''kanji'' 3 k) [0, 1, 2, 3, 4, 5, 6, 7, 8, 9]"

definition two_radicals :: "assignment list" where
  "two_radicals = [item ''radical'' 0 0, item ''radical'' 3 1, item ''kanji'' 5 0]"

section \<open>Process-wide state, forecast and speedup analysis\<close>

text \<open>
  The three module variables \<open>_stats\<close>, \<open>_currentLevel\<close> and \<open>_activePace\<close>. Functions that
  read them take the record as an argument; a function that reads the clock
  (\<open>new Date()\<close>) takes the reading as the argument \<open>now\<close>. The pace selector only ever
  holds one of the five keys that \<open>renderPills\<close> offers.
\<close>

datatype pace_key = Fast | Median | Avg | Recent | Slow

record globals =
  stats_g :: "stats option"
  currentLevel_g :: nat
  activePace_g :: pace_key

text \<open>\<open>new Date(x)\<close> of a number cuts the fraction of a millisecond off, towards zero.\<close>

definition to_integer :: "rat \<Rightarrow> int" where
  "to_integer x = (if 0 \<le> x then \<lfloor>x\<rfloor> else \<lceil>x\<rceil>)"

definition addDays :: "instant \<Rightarrow> rat \<Rightarrow> instant" where
  "addDays d n = to_integer (of_int d + n * 86400000)"

text \<open>The dates that \<open>updatePrediction\<close> computes before it writes them to the page;
  nothing is computed when \<open>_stats\<close> is \<open>null\<close>.\<close>

record prediction =
  left_p :: int
  dpL :: rat
  pred :: instant
  fast_p :: instant
  mid_p :: instant
  slow_p :: instant

definition paceMap :: "stats \<Rightarrow> pace_key \<Rightarrow> rat" where
  "paceMap st k =
     (case k of Fast \<Rightarrow> fast st | Median \<Rightarrow> median st | Avg \<Rightarrow> avg st
              | Slow \<Rightarrow> slow st | Recent \<Rightarrow> recent st)"

definition updatePrediction :: "globals \<Rightarrow> instant \<Rightarrow> prediction option" where
  "updatePrediction g now =
     (case stats_g g of
        None \<Rightarrow> None
      | Some st \<Rightarrow>
          (let left = 60 - int (currentLevel_g g);
               d = js_or (paceMap st (activePace_g g)) (median st)
           in Some \<lparr> left_p = left, dpL = d,
                     pred = addDays now (of_int left * d),
                     fast_p = addDays now (of_int left * fast st),
                     mid_p = addDays now (of_int left * median st),
                     slow_p = addDays now (of_int left * slow st) \<rparr>))"

text \<open>One record of \<open>/v2/review_statistics\<close> (the \<open>data\<close> object).\<close>

record review_stat =
  meaning_correct :: nat
  meaning_incorrect :: nat
  reading_correct :: nat
  reading_incorrect :: nat

definition MINIMUM_DAYS_PER_LEVEL :: rat where
  "MINIMUM_DAYS_PER_LEVEL = 342 / 100"

definition AVG_EXTRA_HOURS_PER_MISTAKE :: rat where
  "AVG_EXTRA_HOURS_PER_MISTAKE = 205 / 10"

subsection \<open>\<open>computeSpeedup(reviewStats, stats)\<close>, the variant with the blended saving\<close>

record tally =
  totalMeaningIncorrect :: nat
  totalReadingIncorrect :: nat
  totalMeaningCorrect :: nat
  totalReadingCorrect :: nat
  totalExtraHours :: rat
  leeches :: nat

text \<open>The body of the \<open>for (const rs of reviewStats)\<close> loop.\<close>

definition tally_step :: "tally \<Rightarrow> review_stat \<Rightarrow> tally" where
  "tally_step t d =
     (let wrong = meaning_incorrect d + reading_incorrect d
      in \<lparr> totalMeaningIncorrect = totalMeaningIncorrect t + meaning_incorrect d,
           totalReadingIncorrect = totalReadingIncorrect t + reading_incorrect d,
           totalMeaningCorrect = totalMeaningCorrect t + meaning_correct d,
           totalReadingCorrect = totalReadingCorrect t + reading_correct d,
           totalExtraHours = totalExtraHours t + of_nat wrong * AVG_EXTRA_HOURS_PER_MISTAKE,
           leeches = (if wrong \<ge> 4 then leeches t + 1 else leeches t) \<rparr>)"

record blended =
  windowLostPerLevel_b :: rat
  windowSavingTotal :: rat
  mistakeDaysLostPerLevel :: rat
  mistakeSavingTotal :: rat
  combinedSaving :: rat
  overallAcc :: rat
  totalWrong :: nat
  totalAnswers :: nat
  leechCount :: nat

definition computeSpeedup_blended :: "globals \<Rightarrow> review_stat list \<Rightarrow> stats \<Rightarrow> blended" where
  "computeSpeedup_blended g reviewStats st =
     (let left = (of_int (60 - int (currentLevel_g g)) :: rat);
          windowLost = max 0 (median st - MINIMUM_DAYS_PER_LEVEL);
          windowSaving = windowLost * left;
          t = foldl tally_step
                \<lparr> totalMeaningIncorrect = 0, totalReadingIncorrect = 0,
                  totalMeaningCorrect = 0, totalReadingCorrect = 0,
                  totalExtraHours = 0, leeches = 0 \<rparr> reviewStats;
          answers = totalMeaningCorrect t + totalReadingCorrect t +
                    totalMeaningIncorrect t + totalReadingIncorrect t;
          wrong = totalMeaningIncorrect t + totalReadingIncorrect t;
          acc = (if answers > 0
                 then (of_nat answers - of_nat wrong) / of_nat answers * 100 else 100);
          mistakeDaysLost = totalExtraHours t / 24;
          mistakeLost = (if length (done_list st) > 0
                         then mistakeDaysLost / of_nat (length (done_list st)) else 0);
          mistakeSaving = mistakeLost * left
      in \<lparr> windowLostPerLevel_b = windowLost, windowSavingTotal = windowSaving,
           mistakeDaysLostPerLevel = mistakeLost, mistakeSavingTotal = mistakeSaving,
           combinedSaving = max windowSaving mistakeSaving +
                            min windowSaving mistakeSaving * (4 / 10),
           overallAcc = acc, totalWrong = wrong, totalAnswers = answers,
           leechCount = leeches t \<rparr>)"

subsection \<open>\<open>computeSpeedup(reviewStats)\<close>, the two variants that read \<open>_stats\<close>\<close>

text \<open>\<open>calcWindowLevelDays\<close> and \<open>calcWindowRoadTo60\<close>; the two clock readings of the latter
  are taken to be the same instant.\<close>

record level_days =
  days :: rat
  levelUpDate_w :: instant

definition calcWindowLevelDays :: "zone \<Rightarrow> instant \<Rightarrow> level_days" where
  "calcWindowLevelDays z lessonTime =
     (let radicalGuruDate = simulateToGuru z lessonTime 0;
          kanjiGuruDate = simulateToGuru z radicalGuruDate 0
      in \<lparr> days = of_int (kanjiGuruDate - lessonTime) / 86400000,
           levelUpDate_w = kanjiGuruDate \<rparr>)"

record road =
  windowDaysPerLevel :: rat
  windowDate :: instant

definition calcWindowRoadTo60 :: "globals \<Rightarrow> zone \<Rightarrow> instant \<Rightarrow> road" where
  "calcWindowRoadTo60 g z now =
     (let left = 60 - int (currentLevel_g g);
          firstLesson = nextWindow z now;
          perLevel = days (calcWindowLevelDays z firstLesson)
      in \<lparr> windowDaysPerLevel = perLevel,
           windowDate = addDays now (of_int left * perLevel) \<rparr>)"

record speedup =
  accuracy :: rat
  total :: nat
  incorrect :: nat
  extraDaysPerLevel :: rat
  windowLostPerLevel :: rat
  realisticBestDays :: "rat option"

text \<open>The loop that adds up correct and incorrect answers, and the figures that depend
  on the review statistics only; both variants have them word for word.\<close>

definition count_answers :: "review_stat list \<Rightarrow> nat \<times> nat" where
  "count_answers reviewStats =
     foldl (\<lambda>(correct, incorrect) d.
              (correct + (meaning_correct d + reading_correct d),
               incorrect + (meaning_incorrect d + reading_incorrect d)))
       (0, 0) reviewStats"

datatype js_error = TypeError

text \<open>\<open>computeSpeedup\<close> of \<open>app.js\<close>: the ideal pace is simulated. Reading \<open>_stats.median\<close>
  while \<open>_stats\<close> is \<open>null\<close> throws. The object returned has no \<open>realisticBestDays\<close>.\<close>

definition computeSpeedup :: "globals \<Rightarrow> zone \<Rightarrow> instant \<Rightarrow> review_stat list \<Rightarrow> js_error + speedup" where
  "computeSpeedup g z now reviewStats =
     (case count_answers reviewStats of (correct, wrong) \<Rightarrow>
        (let tot = correct + wrong;
             acc = (if tot > 0 then (of_nat correct / of_nat tot) * 100 else (100 :: rat));
             incorrectRate = (if tot > 0 then of_nat wrong / of_nat tot else (0 :: rat));
             extraHoursPerLevel = incorrectRate * 100 * (205 / 10);
             extraDays = extraHoursPerLevel / 24
         in case stats_g g of
              None \<Rightarrow> Inl TypeError
            | Some st \<Rightarrow>
                Inr \<lparr> accuracy = acc, total = tot, incorrect = wrong,
                      extraDaysPerLevel = extraDays,
                      windowLostPerLevel =
                        max 0 (median st - windowDaysPerLevel (calcWindowRoadTo60 g z now)),
                      realisticBestDays = None \<rparr>))"

text \<open>\<open>computeSpeedup\<close> of the variant with the constant ideal pace.\<close>

definition computeSpeedup_minimum :: "globals \<Rightarrow> review_stat list \<Rightarrow> js_error + speedup" where
  "computeSpeedup_minimum g reviewStats =
     (case count_answers reviewStats of (correct, wrong) \<Rightarrow>
        (let tot = correct + wrong;
             acc = (if tot > 0 then (of_nat correct / of_nat tot) * 100 else (100 :: rat));
             incorrectRate = (if tot > 0 then of_nat wrong / of_nat tot else (0 :: rat));
             extraHoursPerLevel = incorrectRate * 100 * (205 / 10);
             extraDays = extraHoursPerLevel / 24
         in case stats_g g of
              None \<Rightarrow> Inl TypeError
            | Some st \<Rightarrow>
                Inr \<lparr> accuracy = acc, total = tot, incorrect = wrong,
                      extraDaysPerLevel = extraDays,
                      windowLostPerLevel = max 0 (median st - MINIMUM_DAYS_PER_LEVEL),
                      realisticBestDays = Some (MINIMUM_DAYS_PER_LEVEL + 1 / 2) \<rparr>))"

text \<open>Sample statistics and states: the median pace is 5 days in one and 9 days in the
  other, and one state is past the last level.\<close>

definition stats_with_median :: "rat \<Rightarrow> stats" where
  "stats_with_median m =
     \<lparr> avg = m, median = m, fast = m, slow = m, recent = m,
       durs = [m, m], sorted_list = [m, m], done_list = two_attempts \<rparr>"

definition state_at :: "nat \<Rightarrow> rat \<Rightarrow> globals" where
  "state_at lvl m =
     \<lparr> stats_g = Some (stats_with_median m), currentLevel_g = lvl, activePace_g = Median \<rparr>"

definition sample_reviews :: "review_stat list" where
  "sample_reviews =
     [\<lparr> meaning_correct = 8, meaning_incorrect = 2, reading_correct = 7, reading_incorrect = 3 \<rparr>,
      \<lparr> meaning_correct = 10, meaning_incorrect = 0, reading_correct = 9, reading_incorrect = 1 \<rparr>]"

declare simulateToGuru.simps [simp del]
declare simulateToGuru_iterations.simps [simp del]

section \<open>Properties of the window scheduler\<close>

lemma upto_0_14: "[0..14] = 0 # 1 # [2..14]"
  by (simp add: upto_rec1)

lemma regular_zoneD:
  assumes "regular_zone z"
  shows "t \<le> t' \<Longrightarrow> LocalTime z t div msPerDay \<le> LocalTime z t' div msPerDay"
    and "LocalTime z (UTC z l) div msPerDay = l div msPerDay"
    and "(LocalTime z u = D * msPerDay + 9 * msPerHour) = (u = window_at z D 9)"
    and "(LocalTime z u = D * msPerDay + 18 * msPerHour) = (u = window_at z D 18)"
    and "window_at z D 9 < window_at z D 18"
  using assms unfolding regular_zone_def by blast+

lemma local_day_window:
  assumes "regular_zone z"
  shows "LocalTime z (window_at z D 9) div msPerDay = D"
    and "LocalTime z (window_at z D 18) div msPerDay = D"
proof -
  have "LocalTime z (window_at z D 9) = D * msPerDay + 9 * msPerHour"
    using regular_zoneD(3) [OF assms] by blast
  then show "LocalTime z (window_at z D 9) div msPerDay = D"
    by (simp add: msPerDay_def msPerHour_def)
  have "LocalTime z (window_at z D 18) = D * msPerDay + 18 * msPerHour"
    using regular_zoneD(4) [OF assms] by blast
  then show "LocalTime z (window_at z D 18) div msPerDay = D"
    by (simp add: msPerDay_def msPerHour_def)
qed

lemma next_morning_later:
  assumes "regular_zone z" and "LocalTime z t div msPerDay \<le> D"
  shows "t < window_at z (D + 1) 9"
proof (rule ccontr)
  assume "\<not> t < window_at z (D + 1) 9"
  then have "window_at z (D + 1) 9 \<le> t"
    by simp
  then have "LocalTime z (window_at z (D + 1) 9) div msPerDay \<le> LocalTime z t div msPerDay"
    by (rule regular_zoneD(1) [OF assms(1)])
  then show False
    using assms(2) unfolding local_day_window [OF assms(1)] by simp
qed

lemma nextWindow_cases:
  fixes z t
  defines "D \<equiv> LocalTime z t div msPerDay"
  assumes "regular_zone z"
  shows "nextWindow z t =
     (if t < window_at z D 9 then window_at z D 9
      else if t < window_at z D 18 then window_at z D 18
      else window_at z (D + 1) 9)"
proof -
  have day0: "LocalTime z (setDate_plus z t 0) div msPerDay = D"
    unfolding setDate_plus_def D_def by (simp add: regular_zoneD(2) [OF assms(2)])
  have "(LocalTime z t + msPerDay) div msPerDay = D + 1"
    unfolding D_def msPerDay_def by simp
  then have day1: "LocalTime z (setDate_plus z t 1) div msPerDay = D + 1"
    unfolding setDate_plus_def by (simp add: regular_zoneD(2) [OF assms(2)])
  have h0: "setHours z (setDate_plus z t 0) 9 = window_at z D 9"
    unfolding setHours_def day0 window_at_def ..
  have h1: "setHours z (window_at z D 9) 18 = window_at z D 18"
    unfolding setHours_def local_day_window [OF assms(2)] unfolding window_at_def ..
  have h2: "setHours z (setDate_plus z t 1) 9 = window_at z (D + 1) 9"
    unfolding setHours_def day1 window_at_def ..
  have later: "t < window_at z (D + 1) 9"
    using assms(2) by (rule next_morning_later) (simp add: D_def)
  show ?thesis
    unfolding nextWindow_def upto_0_14
    using later by (simp add: REVIEW_WINDOWS_def Let_def h0 h1 h2)
qed

lemma on_window_iff:
  "on_window z u \<longleftrightarrow>
     LocalTime z u mod 86400000 = 32400000 \<or> LocalTime z u mod 86400000 = 64800000"
  by (auto simp: on_window_def REVIEW_WINDOWS_def msPerDay_def msPerHour_def)

lemma on_window_window_at:
  assumes "regular_zone z"
  shows "on_window z u \<longleftrightarrow>
     u = window_at z (LocalTime z u div msPerDay) 9 \<or>
     u = window_at z (LocalTime z u div msPerDay) 18"
proof -
  define l where "l = LocalTime z u"
  have split: "l = (l div 86400000) * 86400000 + l mod 86400000"
    by simp
  have "l mod 86400000 = 32400000 \<longleftrightarrow> l = (l div 86400000) * 86400000 + 32400000"
    using split by linarith
  moreover have "l mod 86400000 = 64800000 \<longleftrightarrow> l = (l div 86400000) * 86400000 + 64800000"
    using split by linarith
  ultimately show ?thesis
    unfolding on_window_iff l_def [symmetric]
    using regular_zoneD(3) [OF assms, of u "l div 86400000"]
      regular_zoneD(4) [OF assms, of u "l div 86400000"]
    unfolding l_def [symmetric] msPerDay_def msPerHour_def by simp
qed


lemma nextWindow_later:
  assumes "regular_zone z"
  shows "t < nextWindow z t"
  unfolding nextWindow_cases [OF assms]
  using next_morning_later [OF assms, of t "LocalTime z t div msPerDay"] by simp

lemma on_window_at:
  assumes "regular_zone z"
  shows "on_window z (window_at z D 9)" and "on_window z (window_at z D 18)"
  unfolding on_window_window_at [OF assms] local_day_window [OF assms] by simp_all

lemma nextWindow_on_window:
  assumes "regular_zone z"
  shows "on_window z (nextWindow z t)"
  unfolding nextWindow_cases [OF assms] by (simp add: on_window_at [OF assms])

lemma nextWindow_least:
  assumes "regular_zone z" and "t < u" and "on_window z u"
  shows "nextWindow z t \<le> u"
proof -
  define D where "D = LocalTime z t div msPerDay"
  define E where "E = LocalTime z u div msPerDay"
  have u: "u = window_at z E 9 \<or> u = window_at z E 18"
    using assms(3) unfolding on_window_window_at [OF assms(1)] E_def .
  have DE: "D \<le> E"
    unfolding D_def E_def using assms(2) by (intro regular_zoneD(1) [OF assms(1)]) simp
  have order: "window_at z E 9 < window_at z E 18"
    by (rule regular_zoneD(5) [OF assms(1)])
  have r: "nextWindow z t =
     (if t < window_at z D 9 then window_at z D 9
      else if t < window_at z D 18 then window_at z D 18
      else window_at z (D + 1) 9)"
    unfolding D_def by (rule nextWindow_cases [OF assms(1)])
  show ?thesis
  proof (cases "D = E")
    case True
    then show ?thesis
      using u order assms(2) unfolding r by auto
  next
    case False
    then have "D + 1 \<le> E"
      using DE by simp
    have a: "window_at z D 9 < window_at z D 18"
      by (rule regular_zoneD(5) [OF assms(1)])
    have b: "window_at z D 18 < window_at z (D + 1) 9"
      by (rule next_morning_later [OF assms(1)]) (simp add: local_day_window [OF assms(1)])
    have c: "window_at z (D + 1) 9 \<le> window_at z E 9"
    proof (cases "D + 1 = E")
      case True
      then show ?thesis by simp
    next
      case False
      then have "D + 1 \<le> E - 1"
        using \<open>D + 1 \<le> E\<close> by simp
      then have "LocalTime z (window_at z (D + 1) 9) div msPerDay \<le> E - 1"
        unfolding local_day_window [OF assms(1)] .
      then have "window_at z (D + 1) 9 < window_at z (E - 1 + 1) 9"
        by (rule next_morning_later [OF assms(1)])
      then show ?thesis by simp
    qed
    show ?thesis
      using u order a b c unfolding r by auto
  qed
qed

lemma regular_fixed_zone: "regular_zone (fixed_zone off)"
  unfolding regular_zone_def LocalTime_def UTC_def window_at_def fixed_zone_def
  by (auto simp: msPerDay_def msPerHour_def intro: zdiv_mono1)












text \<open>On a host with a fixed offset the three properties hold with no condition.\<close>

lemma nextWindow_fixed_zone:
  "t < nextWindow (fixed_zone off) t \<and> on_window (fixed_zone off) (nextWindow (fixed_zone off) t) \<and>
   (\<forall>u. t < u \<and> on_window (fixed_zone off) u \<longrightarrow> nextWindow (fixed_zone off) t \<le> u)"
  using nextWindow_later [OF regular_fixed_zone] nextWindow_on_window [OF regular_fixed_zone]
    nextWindow_least [OF regular_fixed_zone]
  by blast

text \<open>The two scheduler scenarios of the specification (UTC): eligible at 10:00 gives
  18:00 of the same day, eligible at 19:00 gives 09:00 of the next day.\<close>

lemma nextWindow_scenarios:
  "nextWindow (fixed_zone 0) 36000000 = 64800000"
  "nextWindow (fixed_zone 0) 68400000 = 118800000"
  by code_simp+

section \<open>Properties of the ladder simulator\<close>

lemma simulateToGuru_iterations_eq:
  "simulateToGuru_iterations z d s = (simulateToGuru z d s, 4 - s)"
proof (induction z d s rule: simulateToGuru.induct)
  case (1 z reviewDate stage)
  show ?case
  proof (cases "stage < 4")
    case True
    with 1 show ?thesis
      by (subst simulateToGuru_iterations.simps, subst simulateToGuru.simps)
        (simp add: Suc_diff_Suc)
  next
    case False
    then show ?thesis
      by (subst simulateToGuru_iterations.simps, subst simulateToGuru.simps) simp
  qed
qed

text \<open>
  Claim C2. From every starting instant and every starting stage \<open>s\<close> the loop of
  \<open>simulateToGuru\<close> ends, after exactly \<open>4 - s\<close> runs of its body when \<open>s < 4\<close> and after
  none when \<open>s \<ge> 4\<close>; from a stage \<open>4 + k\<close> the starting instant is returned unchanged.
\<close>

theorem simulateToGuru_iteration_count:
  "simulateToGuru_iterations z d s =
     (simulateToGuru z d s, if s < 4 then 4 - s else 0) \<and>
   simulateToGuru_iterations z d (4 + k) = (d, 0) \<and>
   simulateToGuru z d (4 + k) = d"
proof -
  have unchanged: "simulateToGuru z d (4 + k) = d"
    by (subst simulateToGuru.simps) simp
  have count: "(if s < 4 then 4 - s else 0) = 4 - s"
    by simp
  show ?thesis
    unfolding simulateToGuru_iterations_eq count unchanged by simp
qed

section \<open>Properties of the pace statistics\<close>

lemma foldl_plus_sum_list: "foldl (\<lambda>s d. s + d) a xs = a + sum_list (xs :: rat list)"
  by (induction xs arbitrary: a) simp_all

lemma sum_list_insort: "sum_list (insort x xs) = x + sum_list (xs :: rat list)"
  by (induction xs) simp_all

lemma sum_list_sort: "sum_list (sort xs) = sum_list (xs :: rat list)"
  by (induction xs) (simp_all add: sum_list_insort)

lemma floor_half: "nat \<lfloor>(of_nat n :: rat) / 2\<rfloor> = n div 2"
  using floor_divide_of_nat_eq [of n 2, where ?'a = rat] by simp

lemma floor_quarter: "nat \<lfloor>(of_nat n :: rat) / 4\<rfloor> = n div 4"
  using floor_divide_of_nat_eq [of n 4, where ?'a = rat] by simp

lemma floor_three_quarters: "nat \<lfloor>(of_nat n :: rat) * 3 / 4\<rfloor> = (3 * n) div 4"
  using floor_divide_of_nat_eq [of "3 * n" 4, where ?'a = rat] by (simp add: mult.commute)

lemma computeStats_summary:
  assumes "computeStats ps lvl = Some s \<or> computeStats_latest ps lvl = Some s"
  obtains dn where "s = pace_summary dn" "2 \<le> length dn"
  using assms
  by (auto simp: computeStats_def computeStats_latest_def Let_def split: if_splits)

lemma pace_summary_fields:
  "durs (pace_summary dn) = map duration_days dn"
  "sorted_list (pace_summary dn) = sort (map duration_days dn)"
  "median (pace_summary dn) = sort (map duration_days dn) ! (length dn div 2)"
  "avg (pace_summary dn) = sum_list (map duration_days dn) / of_nat (length dn)"
  by (simp_all add: pace_summary_def Let_def floor_half foldl_plus_sum_list)

lemma pace_summary_quartiles:
  "fast (pace_summary dn) =
     js_or (sort (map duration_days dn) ! (length dn div 4)) (sort (map duration_days dn) ! 0)"
  "slow (pace_summary dn) =
     js_or (sort (map duration_days dn) ! ((3 * length dn) div 4))
       (sort (map duration_days dn) ! (length dn - 1))"
  by (simp_all add: pace_summary_def Let_def floor_quarter floor_three_quarters)

text \<open>
  Claim C3, as the code has it. Whenever the ascending duration list of the completed
  attempts of the current run is 5, 7, 7, 9, 20 days, either variant of \<open>computeStats\<close>
  gives median 7, fast percentile 7 (the element at index \<open>\<lfloor>5 \<times> 0.25\<rfloor> = 1\<close>, not the
  minimum 5), slow percentile 9 and average 48/5 = 9.6.
\<close>

theorem computeStats_scenario:
  assumes "computeStats ps lvl = Some s \<or> computeStats_latest ps lvl = Some s"
    and "sorted_list s = [5, 7, 7, 9, 20]"
  shows "median s = 7 \<and> fast s = 7 \<and> slow s = 9 \<and> avg s = 48 / 5"
proof -
  obtain dn where s: "s = pace_summary dn"
    using assms(1) by (rule computeStats_summary)
  have srt: "sort (map duration_days dn) = [5, 7, 7, 9, 20]"
    using assms(2) unfolding s pace_summary_fields .
  have "length (sort (map duration_days dn)) = 5"
    unfolding srt by simp
  then have len: "length dn = 5"
    by simp
  have "sum_list (sort (map duration_days dn)) = 48"
    unfolding srt by simp
  then have total: "sum_list (map duration_days dn) = 48"
    unfolding sum_list_sort .
  have "median s = 7"
    unfolding s pace_summary_fields srt len by simp
  moreover have "fast s = 7"
    unfolding s pace_summary_quartiles srt len by (simp add: js_or_def)
  moreover have "slow s = 9"
    unfolding s pace_summary_quartiles srt len by (simp add: js_or_def)
  moreover have "avg s = 48 / 5"
    unfolding s pace_summary_fields total len by simp
  ultimately show ?thesis by simp
qed

lemma five_attempts_stats:
  "computeStats five_attempts 6 = Some (pace_summary five_attempts)"
  "sorted_list (pace_summary five_attempts) = [5, 7, 7, 9, 20]"
  by code_simp+

text \<open>The theorem at five attempts that took 5, 7, 7, 9 and 20 days, seen from level 6.\<close>

theorem computeStats_scenario_witness:
  "computeStats five_attempts 6 = Some (pace_summary five_attempts) \<and>
   sorted_list (pace_summary five_attempts) = [5, 7, 7, 9, 20] \<and>
   median (pace_summary five_attempts) = 7 \<and> fast (pace_summary five_attempts) = 7 \<and>
   slow (pace_summary five_attempts) = 9 \<and> avg (pace_summary five_attempts) = 48 / 5"
  using computeStats_scenario [of five_attempts 6 "pace_summary five_attempts"]
    five_attempts_stats by simp

text \<open>On those five attempts the fast percentile is not 5, under either policy.\<close>

theorem computeStats_scenario_counterexample:
  "computeStats five_attempts 6 \<noteq> None \<and>
   sorted_list (the (computeStats five_attempts 6)) = [5, 7, 7, 9, 20] \<and>
   fast (the (computeStats five_attempts 6)) \<noteq> 5 \<and>
   computeStats_latest five_attempts 6 \<noteq> None \<and>
   sorted_list (the (computeStats_latest five_attempts 6)) = [5, 7, 7, 9, 20] \<and>
   fast (the (computeStats_latest five_attempts 6)) \<noteq> 5"
  by code_simp

text \<open>
  Claim C4, as the code has it. For every duration list of even length \<open>n\<close> the median of
  \<open>computeStats\<close> is the element at index \<open>n / 2\<close> of the ascending-sorted list, that is
  the upper of the two middle elements, with no interpolation; the lower-middle element
  (index \<open>n / 2 - 1\<close>) is at most the median.
\<close>

theorem median_even_upper_middle:
  assumes "computeStats ps lvl = Some s \<or> computeStats_latest ps lvl = Some s"
    and "even (length (durs s))"
  shows "sorted_list s = sort (durs s) \<and>
         median s = sorted_list s ! (length (durs s) div 2) \<and>
         sorted_list s ! (length (durs s) div 2 - 1) \<le> median s"
proof -
  obtain dn where s: "s = pace_summary dn" and len: "2 \<le> length dn"
    using assms(1) by (rule computeStats_summary)
  have "sorted (sort (map duration_days dn))"
    by simp
  moreover have "length dn div 2 < length (sort (map duration_days dn))"
    using len by simp
  ultimately have "sort (map duration_days dn) ! (length dn div 2 - 1)
      \<le> sort (map duration_days dn) ! (length dn div 2)"
    by (intro sorted_nth_mono) simp_all
  then show ?thesis
    unfolding s pace_summary_fields by simp
qed

text \<open>The theorem at two attempts that took 5 and 7 days, seen from level 3.\<close>

theorem median_even_upper_middle_witness:
  "computeStats two_attempts 3 = Some (pace_summary two_attempts) \<and>
   even (length (durs (pace_summary two_attempts))) \<and>
   median (pace_summary two_attempts) =
     sorted_list (pace_summary two_attempts) ! (length (durs (pace_summary two_attempts)) div 2)"
proof -
  have a: "computeStats two_attempts 3 = Some (pace_summary two_attempts)"
    by code_simp
  have b: "even (length (durs (pace_summary two_attempts)))"
    by code_simp
  show ?thesis
    using median_even_upper_middle [of two_attempts 3 "pace_summary two_attempts"] a b
    by simp
qed

text \<open>On those two attempts the lower-middle element is 5 and the median is 7.\<close>

theorem median_even_counterexample:
  "computeStats two_attempts 3 \<noteq> None \<and>
   length (sorted_list (the (computeStats two_attempts 3))) = 2 \<and>
   sorted_list (the (computeStats two_attempts 3)) ! (2 div 2 - 1) = 5 \<and>
   median (the (computeStats two_attempts 3)) = 7 \<and>
   computeStats_latest two_attempts 3 \<noteq> None \<and>
   length (sorted_list (the (computeStats_latest two_attempts 3))) = 2 \<and>
   sorted_list (the (computeStats_latest two_attempts 3)) ! (2 div 2 - 1) = 5 \<and>
   median (the (computeStats_latest two_attempts 3)) = 7"
  by code_simp

text \<open>
  Claim C5. \<open>computeStats\<close> returns \<open>null\<close> exactly when fewer than two attempts of the
  current run have \<open>passed_at\<close> present, \<open>abandoned_at\<close> absent and a level strictly below
  the current level; this holds for the start-date policy and for the
  latest-attempt-per-level policy.
\<close>

theorem computeStats_insufficient:
  "(computeStats ps lvl = None \<longleftrightarrow>
      length [p \<leftarrow> ps. date_of (getCurrentRunStart ps) \<le> started_at p \<and>
                passed_at p \<noteq> None \<and> abandoned_at p = None \<and> level p < lvl] < 2) \<and>
   (computeStats_latest ps lvl = None \<longleftrightarrow>
      length [p \<leftarrow> getLatestRun ps.
                passed_at p \<noteq> None \<and> abandoned_at p = None \<and> level p < lvl] < 2)"
proof -
  have c: "completed lvl =
      (\<lambda>p. passed_at p \<noteq> None \<and> abandoned_at p = None \<and> level p < lvl)"
    by (simp add: fun_eq_iff completed_def)
  have run: "filter (completed lvl) (currentRun ps) =
      [p \<leftarrow> ps. date_of (getCurrentRunStart ps) \<le> started_at p \<and>
                passed_at p \<noteq> None \<and> abandoned_at p = None \<and> level p < lvl]"
    unfolding c currentRun_def Let_def filter_filter ..
  show ?thesis
    unfolding computeStats_def computeStats_latest_def Let_def run
    unfolding c by simp
qed

text \<open>With exactly one qualifying attempt both variants return \<open>null\<close>.\<close>

theorem computeStats_insufficient_witness:
  "length [p \<leftarrow> one_attempt. date_of (getCurrentRunStart one_attempt) \<le> started_at p \<and>
                passed_at p \<noteq> None \<and> abandoned_at p = None \<and> level p < 2] = 1 \<and>
   computeStats one_attempt 2 = None \<and>
   length [p \<leftarrow> getLatestRun one_attempt.
                passed_at p \<noteq> None \<and> abandoned_at p = None \<and> level p < 2] = 1 \<and>
   computeStats_latest one_attempt 2 = None"
proof -
  have a: "length [p \<leftarrow> one_attempt. date_of (getCurrentRunStart one_attempt) \<le> started_at p \<and>
                passed_at p \<noteq> None \<and> abandoned_at p = None \<and> level p < 2] = 1"
    by code_simp
  have b: "length [p \<leftarrow> getLatestRun one_attempt.
                passed_at p \<noteq> None \<and> abandoned_at p = None \<and> level p < 2] = 1"
    by code_simp
  show ?thesis
    using computeStats_insufficient [of one_attempt 2] a b by simp
qed

section \<open>Properties of run segmentation\<close>

lemma run_walk_last_marker:
  "run_walk r q xs = (case last_marker q xs of None \<Rightarrow> r | Some m \<Rightarrow> m)"
  by (induction xs arbitrary: r q) (auto split: option.splits)

lemma last_marker_mem: "last_marker q xs = Some m \<Longrightarrow> m \<in> started_at ` set xs"
  by (induction xs arbitrary: q) (auto split: option.splits if_splits)

lemma run_walk_filter_marker:
  assumes "sorted (map started_at xs)" and "last_marker q xs = Some R"
  shows "run_walk R q' (filter (\<lambda>p. R \<le> started_at p) xs) = R"
  using assms
proof (induction xs arbitrary: q q')
  case Nil
  then show ?case by simp
next
  case (Cons p ps)
  have srt: "sorted (map started_at ps)" and le: "\<forall>x\<in>set ps. started_at p \<le> started_at x"
    using Cons.prems(1) by simp_all
  show ?case
  proof (cases "R \<le> started_at p")
    case True
    then have all: "filter (\<lambda>p. R \<le> started_at p) ps = ps"
      using le by (auto intro!: filter_True)
    show ?thesis
      using Cons.prems(2) True
      by (simp add: all run_walk_last_marker split: option.splits if_splits)
  next
    case False
    then have "last_marker (level p) ps = Some R"
      using Cons.prems(2) by (auto split: option.splits if_splits)
    then show ?thesis
      using False Cons.IH [OF srt] by simp
  qed
qed

lemma hd_filter_sorted:
  assumes "sorted (map started_at xs)" and "R \<in> started_at ` set xs"
  shows "started_at (hd (filter (\<lambda>p. R \<le> started_at p) xs)) = R"
  using assms
proof (induction xs)
  case Nil
  then show ?case by simp
next
  case (Cons p ps)
  then show ?case by (auto simp: image_iff) 
qed

lemma run_start_filter:
  assumes "sorted (map started_at xs)" and "xs \<noteq> []"
  defines "R \<equiv> run_walk (started_at (hd xs)) 0 xs"
  shows "filter (\<lambda>p. R \<le> started_at p) xs \<noteq> [] \<and>
         run_walk (started_at (hd (filter (\<lambda>p. R \<le> started_at p) xs))) 0
           (filter (\<lambda>p. R \<le> started_at p) xs) = R"
proof (cases "last_marker 0 xs")
  case None
  then have R: "R = started_at (hd xs)"
    unfolding R_def run_walk_last_marker by simp
  have "\<forall>x\<in>set xs. started_at (hd xs) \<le> started_at x"
    using assms(1,2) by (cases xs) auto
  then have "filter (\<lambda>p. R \<le> started_at p) xs = xs"
    unfolding R by (auto intro!: filter_True)
  then show ?thesis
    using assms(2) R_def by simp
next
  case (Some m)
  then have R: "R = m"
    unfolding R_def run_walk_last_marker by simp
  have mem: "R \<in> started_at ` set xs"
    using Some last_marker_mem unfolding R by blast
  then have ne: "filter (\<lambda>p. R \<le> started_at p) xs \<noteq> []"
    by (auto simp: filter_empty_conv)
  have "started_at (hd (filter (\<lambda>p. R \<le> started_at p) xs)) = R"
    using assms(1) mem by (rule hd_filter_sorted)
  then show ?thesis
    using ne run_walk_filter_marker [OF assms(1), of 0 R 0] Some R by simp
qed

lemma getCurrentRunStart_currentRun:
  assumes "ps \<noteq> []"
  shows "getCurrentRunStart (currentRun ps) = getCurrentRunStart ps"
proof -
  define srt where "srt = sort_key started_at ps"
  define R where "R = run_walk (started_at (hd srt)) 0 srt"
  have srt: "sorted (map started_at srt)" "srt \<noteq> []"
    using assms unfolding srt_def by (simp, metis length_sort length_0_conv)
  have start: "getCurrentRunStart ps = Some R"
    using assms unfolding getCurrentRunStart_def R_def srt_def by (simp add: Let_def)
  have run: "currentRun ps = filter (\<lambda>p. R \<le> started_at p) ps"
    unfolding currentRun_def start by (simp add: date_of_def)
  have comm: "sort_key started_at (filter (\<lambda>p. R \<le> started_at p) ps)
      = filter (\<lambda>p. R \<le> started_at p) srt"
    unfolding srt_def by (simp add: filter_sort)
  have key: "filter (\<lambda>p. R \<le> started_at p) srt \<noteq> [] \<and>
         run_walk (started_at (hd (filter (\<lambda>p. R \<le> started_at p) srt))) 0
           (filter (\<lambda>p. R \<le> started_at p) srt) = R"
    unfolding R_def using srt by (rule run_start_filter)
  then have "filter (\<lambda>p. R \<le> started_at p) ps \<noteq> []"
    unfolding comm [symmetric] by (metis length_sort length_0_conv)
  then show ?thesis
    unfolding run start using key
    by (simp add: getCurrentRunStart_def Let_def comm)
qed

lemma currentRun_idem: "currentRun (currentRun ps) = currentRun ps"
proof (cases "ps = []")
  case True
  then show ?thesis by (simp add: currentRun_def)
next
  case False
  show ?thesis
    by (subst (1) currentRun_def)
      (simp add: getCurrentRunStart_currentRun [OF False] Let_def, simp add: currentRun_def)
qed


lemma update_new_key: "k \<notin> fst ` set al \<Longrightarrow> AList.update k v al = al @ [(k, v)]"
  by (induction al) auto

lemma update_level_map:
  "map fst al = map (level \<circ> snd) al \<Longrightarrow>
   map fst (AList.update (level p) p al) = map (level \<circ> snd) (AList.update (level p) p al)"
  by (induction al) auto

lemma update_level_keyed: "level_keyed al \<Longrightarrow> level_keyed (AList.update (level p) p al)"
proof -
  assume a: "level_keyed al"
  have "distinct (map fst (AList.update (level p) p al))"
    using a unfolding level_keyed_def by (intro distinct_update) simp
  moreover have "map fst (AList.update (level p) p al)
      = map (level \<circ> snd) (AList.update (level p) p al)"
    using a unfolding level_keyed_def by (intro update_level_map) simp
  ultimately show ?thesis
    unfolding level_keyed_def by (rule conjI)
qed

lemma keep_latest_level_keyed: "level_keyed al \<Longrightarrow> level_keyed (keep_latest al p)"
  unfolding keep_latest_def by (simp add: update_level_keyed split: option.splits)

lemma foldl_keep_latest_level_keyed:
  "level_keyed al \<Longrightarrow> level_keyed (foldl keep_latest al ps)"
  by (induction ps arbitrary: al) (simp_all add: keep_latest_level_keyed)

lemma distinct_map_sort_key: "distinct (map g (sort_key f xs)) = distinct (map g xs)"
  by (simp add: distinct_map)

lemma getLatestRun_levels:
  "distinct (map level (getLatestRun ps)) \<and> sorted (map level (getLatestRun ps))"
proof -
  define al where "al = foldl keep_latest [] ps"
  have "level_keyed al"
    unfolding al_def by (rule foldl_keep_latest_level_keyed) (simp add: level_keyed_def)
  then have d: "distinct (map fst al)" and m: "map fst al = map (level \<circ> snd) al"
    unfolding level_keyed_def by blast+
  have "distinct (map (level \<circ> snd) al)"
    using d unfolding m .
  then have "distinct (map level (object_values al))"
    unfolding object_values_def by (simp add: distinct_map_sort_key)
  then show ?thesis
    unfolding getLatestRun_def al_def [symmetric] by (simp add: distinct_map_sort_key)
qed

lemma foldl_keep_latest_fresh:
  assumes "distinct (map level xs)" and "level ` set xs \<inter> fst ` set acc = {}"
  shows "foldl keep_latest acc xs = acc @ map (\<lambda>p. (level p, p)) xs"
  using assms
proof (induction xs arbitrary: acc)
  case Nil
  then show ?case by simp
next
  case (Cons p ps)
  have fresh: "level p \<notin> fst ` set acc"
    using Cons.prems(2) by auto
  then have "map_of acc (level p) = None"
    by (simp add: map_of_eq_None_iff)
  then have step: "keep_latest acc p = acc @ [(level p, p)]"
    using fresh by (simp add: keep_latest_def update_new_key)
  have "level ` set ps \<inter> fst ` set (acc @ [(level p, p)]) = {}"
    using Cons.prems by auto
  then show ?case
    using Cons.IH [of "acc @ [(level p, p)]"] Cons.prems(1) by (simp add: step)
qed

lemma getLatestRun_fixed:
  assumes "distinct (map level xs)" and "sorted (map level xs)"
  shows "getLatestRun xs = xs"
proof -
  have f: "foldl keep_latest [] xs = map (\<lambda>p. (level p, p)) xs"
    using foldl_keep_latest_fresh [OF assms(1), of "[]"] by simp
  have "sorted (map fst (map (\<lambda>p. (level p, p)) xs))"
    using assms(2) by (simp add: comp_def)
  then have "sort_key fst (map (\<lambda>p. (level p, p)) xs) = map (\<lambda>p. (level p, p)) xs"
    by (rule sort_key_id_if_sorted)
  then have "object_values (foldl keep_latest [] xs) = xs"
    unfolding object_values_def f by (simp add: comp_def)
  then show ?thesis
    unfolding getLatestRun_def using assms(2) by (simp add: sort_key_id_if_sorted)
qed

text \<open>
  Claim C7. Run segmentation is idempotent under each policy: the start-date filter of
  \<open>computeStats\<close> applied to its own output returns it unchanged, and so does the
  latest-attempt-per-level selection \<open>getLatestRun\<close>.
\<close>

theorem segmentation_idempotent:
  "currentRun (currentRun ps) = currentRun ps \<and>
   getLatestRun (getLatestRun ps) = getLatestRun ps"
  using currentRun_idem getLatestRun_fixed getLatestRun_levels by blast

section \<open>Properties of the next-level-up forecast\<close>

lemma simulate_item_fields:
  "guruDate (simulate_item z now d) = mastery_instant z now d"
  "item_type (simulate_item z now d) = subject_type d"
  by (simp_all add: simulate_item_def mastery_instant_def Let_def max_def)

lemma map_insort_key: "map f (insort_key f x xs) = insort (f x) (map f xs)"
  by (induction xs) simp_all

lemma map_sort_key: "map f (sort_key f xs) = sort (map f xs)"
  by (induction xs) (simp_all add: map_insort_key)

lemma sort_map_sort_key: "sort (map f (sort_key g xs)) = sort (map f xs)"
  by (rule properties_for_sort) simp_all

lemma hd_sort_key_neg:
  fixes f :: "'a \<Rightarrow> int"
  assumes "xs \<noteq> []"
  shows "f (hd (sort_key (\<lambda>x. - f x) xs)) = Max (f ` set xs)"
proof -
  define ys where "ys = sort_key (\<lambda>x. - f x) xs"
  have ne: "ys \<noteq> []"
    using assms unfolding ys_def by (metis length_sort length_0_conv)
  have srt: "sorted (map (\<lambda>x. - f x) ys)"
    unfolding ys_def by simp
  have set: "set ys = set xs"
    unfolding ys_def by simp
  obtain y zs where ys: "ys = y # zs"
    using ne by (cases ys) auto
  have "\<forall>z\<in>set ys. f z \<le> f y"
    using srt unfolding ys by auto
  moreover have "y \<in> set ys"
    unfolding ys by simp
  ultimately have "Max (f ` set ys) = f y"
    by (intro Max_eqI) auto
  then show ?thesis
    unfolding ys_def [symmetric] set [symmetric] ys by simp
qed

lemma percentile_index_bound:
  assumes "0 < n"
  shows "nat (max 0 (int n - 1 - \<lfloor>(of_nat n :: rat) * (1 / 10)\<rfloor>)) < n"
proof -
  define k where "k = \<lfloor>(of_nat n :: rat) * (1 / 10)\<rfloor>"
  have "0 \<le> k"
    unfolding k_def by simp
  then have "nat (max 0 (int n - 1 - k)) < n"
    using assms by linarith
  then show ?thesis
    unfolding k_def .
qed

text \<open>
  Claim C6. For every non-empty set of blocking items: if there are kanji among them, the
  level-up instant is the simulated mastery instant at index
  \<open>max(0, length - 1 - \<lfloor>length \<times> 0.1\<rfloor>)\<close> of the kanji mastery instants sorted
  ascending; if there are none, it is the latest mastery instant of the blocking radicals.
\<close>

theorem computeNextLevel_levelUp:
  assumes "filter is_blocking as \<noteq> []"
  shows "levelUpDate (computeNextLevel z now as) =
     (let kanji = filter (\<lambda>d. subject_type d = ''kanji'') (filter is_blocking as);
          radicals = filter (\<lambda>d. subject_type d = ''radical'') (filter is_blocking as);
          n = length kanji
      in if kanji \<noteq> []
         then sort (map (mastery_instant z now) kanji)
                ! nat (max 0 (int n - 1 - \<lfloor>(of_nat n :: rat) * (1 / 10)\<rfloor>))
         else Max (mastery_instant z now ` set radicals))"
proof -
  define blocking where "blocking = filter is_blocking as"
  define kanji where "kanji = filter (\<lambda>d. subject_type d = ''kanji'') blocking"
  define radicals where "radicals = filter (\<lambda>d. subject_type d = ''radical'') blocking"
  define gd where "gd = map (simulate_item z now) blocking"
  define guruDates where "guruDates = sort_key (\<lambda>g. - guruDate g) gd"
  define kanjiItems where "kanjiItems = filter (\<lambda>g. item_type g = ''kanji'') guruDates"
  define n where "n = length kanji"
  define i where "i = nat (max 0 (int n - 1 - \<lfloor>(of_nat n :: rat) * (1 / 10)\<rfloor>))"
  have ne: "blocking \<noteq> []"
    using assms unfolding blocking_def .
  have kanjiItems: "kanjiItems = sort_key (\<lambda>g. - guruDate g) (map (simulate_item z now) kanji)"
    unfolding kanjiItems_def guruDates_def gd_def kanji_def
    by (simp add: filter_sort filter_map comp_def simulate_item_fields)
  have len: "length kanjiItems = n"
    unfolding kanjiItems n_def by simp
  have dates: "map guruDate (sort_key guruDate kanjiItems) = sort (map (mastery_instant z now) kanji)"
    unfolding map_sort_key kanjiItems sort_map_sort_key
    by (simp add: comp_def simulate_item_fields)
  have code: "levelUpDate (computeNextLevel z now as) =
      (if 0 < length kanjiItems
       then guruDate (sort_key guruDate kanjiItems ! i)
       else guruDate (guruDates ! 0))"
    using ne
    unfolding computeNextLevel_def blocking_def [symmetric] Let_def gd_def [symmetric]
      guruDates_def [symmetric] kanjiItems_def [symmetric] i_def
    by (simp add: len)
  show ?thesis
  proof (cases "kanji = []")
    case False
    then have pos: "0 < n"
      unfolding n_def by simp
    then have "i < n"
      unfolding i_def by (rule percentile_index_bound)
    then have "guruDate (sort_key guruDate kanjiItems ! i)
        = map guruDate (sort_key guruDate kanjiItems) ! i"
      by (simp add: len)
    then show ?thesis
      using False pos
      unfolding code len dates blocking_def [symmetric] kanji_def [symmetric] Let_def
        n_def [symmetric] i_def [symmetric]
      by simp
  next
    case True
    then have zero: "n = 0"
      unfolding n_def by simp
    have "\<forall>d\<in>set blocking. subject_type d = ''radical''"
    proof
      fix d
      assume d: "d \<in> set blocking"
      then have "subject_type d \<noteq> ''kanji''"
        using True unfolding kanji_def by (auto simp: filter_empty_conv)
      moreover have "is_blocking d"
        using d unfolding blocking_def by simp
      ultimately show "subject_type d = ''radical''"
        unfolding is_blocking_def by blast
    qed
    then have rad: "radicals = blocking"
      unfolding radicals_def by (auto intro!: filter_True)
    have gne: "gd \<noteq> []"
      using ne unfolding gd_def by simp
    then have "guruDates \<noteq> []"
      unfolding guruDates_def by (metis length_sort length_0_conv)
    then have "guruDates ! 0 = hd guruDates"
      by (simp add: hd_conv_nth)
    also have "guruDate (hd guruDates) = Max (guruDate ` set gd)"
      unfolding guruDates_def using gne by (rule hd_sort_key_neg)
    also have "guruDate ` set gd = mastery_instant z now ` set blocking"
      unfolding gd_def by (simp add: image_image simulate_item_fields)
    finally have "guruDate (guruDates ! 0) = Max (mastery_instant z now ` set radicals)"
      unfolding rad .
    then show ?thesis
      using True
      unfolding code len zero blocking_def [symmetric] kanji_def [symmetric] Let_def
        radicals_def [symmetric]
      by simp
  qed
qed

text \<open>The theorem in UTC on ten kanji (index 8 of the sorted instants, 09:00 on day 11)
  and on two radicals (the later one, 18:00 on the fourth day).\<close>

theorem computeNextLevel_levelUp_witness:
  "filter is_blocking ten_kanji \<noteq> [] \<and>
   levelUpDate (computeNextLevel (fixed_zone 0) 0 ten_kanji) = 896400000 \<and>
   filter is_blocking two_radicals \<noteq> [] \<and>
   levelUpDate (computeNextLevel (fixed_zone 0) 0 two_radicals) = 324000000"
proof -
  have ne1: "filter is_blocking ten_kanji \<noteq> []"
    by code_simp
  have ne2: "filter is_blocking two_radicals \<noteq> []"
    by code_simp
  have v1: "(let kanji = filter (\<lambda>d. subject_type d = ''kanji'') (filter is_blocking ten_kanji);
          radicals = filter (\<lambda>d. subject_type d = ''radical'') (filter is_blocking ten_kanji);
          n = length kanji
      in if kanji \<noteq> []
         then sort (map (mastery_instant (fixed_zone 0) 0) kanji)
                ! nat (max 0 (int n - 1 - \<lfloor>(of_nat n :: rat) * (1 / 10)\<rfloor>))
         else Max (mastery_instant (fixed_zone 0) 0 ` set radicals)) = 896400000"
    by code_simp
  have v2: "(let kanji = filter (\<lambda>d. subject_type d = ''kanji'') (filter is_blocking two_radicals);
          radicals = filter (\<lambda>d. subject_type d = ''radical'') (filter is_blocking two_radicals);
          n = length kanji
      in if kanji \<noteq> []
         then sort (map (mastery_instant (fixed_zone 0) 0) kanji)
                ! nat (max 0 (int n - 1 - \<lfloor>(of_nat n :: rat) * (1 / 10)\<rfloor>))
         else Max (mastery_instant (fixed_zone 0) 0 ` set radicals)) = 324000000"
    by code_simp
  show ?thesis
    using ne1 ne2 computeNextLevel_levelUp [OF ne1, of "fixed_zone 0" 0] computeNextLevel_levelUp [OF ne2, of "fixed_zone 0" 0]
    unfolding v1 v2 by blast
qed

section \<open>Properties of the blended saving\<close>

lemma max_min_scale:
  fixes a b l :: rat
  assumes "0 \<le> l"
  shows "max (a * l) (b * l) = l * max a b" "min (a * l) (b * l) = l * min a b"
  using assms by (simp_all add: max_mult_distrib_left min_mult_distrib_left mult.commute)

text \<open>
  Claim C8, as the code has it. The code blends the two totals,
  \<open>max(windowSavingTotal, mistakeSavingTotal) + min(windowSavingTotal, mistakeSavingTotal) \<times> 0.4\<close>,
  each total being the per-level loss times \<open>60 - currentLevel\<close>. Whenever the current level
  is at most 60 this equals
  \<open>levelsRemaining \<times> (max(windowLostPerLevel, mistakeLostPerLevel) +
  min(windowLostPerLevel, mistakeLostPerLevel) \<times> 0.4)\<close>.
\<close>

theorem combinedSaving_formula:
  assumes "currentLevel_g g \<le> 60"
  shows "combinedSaving (computeSpeedup_blended g rs st) =
     of_int (60 - int (currentLevel_g g)) *
       (max (windowLostPerLevel_b (computeSpeedup_blended g rs st))
            (mistakeDaysLostPerLevel (computeSpeedup_blended g rs st)) +
        min (windowLostPerLevel_b (computeSpeedup_blended g rs st))
            (mistakeDaysLostPerLevel (computeSpeedup_blended g rs st)) * (4 / 10))"
proof -
  define l :: rat where "l = of_int (60 - int (currentLevel_g g))"
  define wl where "wl = windowLostPerLevel_b (computeSpeedup_blended g rs st)"
  define ml where "ml = mistakeDaysLostPerLevel (computeSpeedup_blended g rs st)"
  have l: "0 \<le> l"
    using assms unfolding l_def by simp
  have "combinedSaving (computeSpeedup_blended g rs st) =
      max (wl * l) (ml * l) + min (wl * l) (ml * l) * (4 / 10)"
    unfolding wl_def ml_def l_def computeSpeedup_blended_def Let_def by simp
  also have "\<dots> = l * (max wl ml + min wl ml * (4 / 10))"
    unfolding max_min_scale [OF l] by (simp add: algebra_simps)
  finally show ?thesis
    unfolding wl_def ml_def l_def .
qed

text \<open>
  The theorem at level 58 with a median of 5 days and two review records.
\<close>

theorem combinedSaving_formula_witness:
  "currentLevel_g (state_at 58 5) \<le> 60 \<and>
   combinedSaving (computeSpeedup_blended (state_at 58 5) sample_reviews (stats_with_median 5))
     = 2 * (41 / 16 + 79 / 50 * (4 / 10))"
proof -
  have a: "currentLevel_g (state_at 58 5) \<le> 60"
    by code_simp
  have b: "windowLostPerLevel_b
      (computeSpeedup_blended (state_at 58 5) sample_reviews (stats_with_median 5)) = 79 / 50"
    by code_simp
  have c: "mistakeDaysLostPerLevel
      (computeSpeedup_blended (state_at 58 5) sample_reviews (stats_with_median 5)) = 41 / 16"
    by code_simp
  have d: "currentLevel_g (state_at 58 5) = 58"
    by code_simp
  show ?thesis
    using combinedSaving_formula [OF a, of sample_reviews "stats_with_median 5"]
    unfolding b c d by simp
qed

text \<open>
  Past the last level the two sides differ: at level 61, with a median of 5 days and no
  review records, the code gives -79/125 and the formula of the claim -79/50.
\<close>

theorem combinedSaving_counterexample:
  "combinedSaving (computeSpeedup_blended (state_at 61 5) [] (stats_with_median 5))
     = - (79 / 125) \<and>
   of_int (60 - int (currentLevel_g (state_at 61 5))) *
     (max (windowLostPerLevel_b (computeSpeedup_blended (state_at 61 5) [] (stats_with_median 5)))
          (mistakeDaysLostPerLevel (computeSpeedup_blended (state_at 61 5) [] (stats_with_median 5))) +
      min (windowLostPerLevel_b (computeSpeedup_blended (state_at 61 5) [] (stats_with_median 5)))
          (mistakeDaysLostPerLevel (computeSpeedup_blended (state_at 61 5) [] (stats_with_median 5)))
        * (4 / 10)) = - (79 / 50 :: rat)"
  by code_simp

section \<open>Properties of the level-completion forecast\<close>

lemma to_integer_of_int: "to_integer (of_int n) = n"
  by (simp add: to_integer_def)

lemma to_integer_close: "\<bar>of_int (to_integer x) - x\<bar> < 1"
  unfolding to_integer_def by (auto simp: abs_if) linarith+

text \<open>
  Claim C9, as the code has it. Each forecast of \<open>updatePrediction\<close> is the current
  instant plus \<open>(60 - currentLevel) \<times> paceDays\<close> days, cut to a whole millisecond, for the
  selected pace and for the fast, median and slow figures. The number of levels left is
  not clamped: at level 60 it is 0 and every forecast is the current instant.
\<close>

theorem forecast_formula:
  assumes "updatePrediction g now = Some r"
  shows "left_p r = 60 - int (currentLevel_g g) \<and>
     pred r = to_integer (of_int now + of_int (left_p r) * dpL r * 86400000) \<and>
     fast_p r = to_integer (of_int now + of_int (left_p r) * fast (the (stats_g g)) * 86400000) \<and>
     mid_p r = to_integer (of_int now + of_int (left_p r) * median (the (stats_g g)) * 86400000) \<and>
     slow_p r = to_integer (of_int now + of_int (left_p r) * slow (the (stats_g g)) * 86400000) \<and>
     \<bar>of_int (pred r) - (of_int now + of_int (left_p r) * dpL r * 86400000)\<bar> < 1 \<and>
     (if currentLevel_g g = 60
      then pred r = now \<and> fast_p r = now \<and> mid_p r = now \<and> slow_p r = now else True)"
proof -
  obtain st where st: "stats_g g = Some st"
    using assms by (auto simp: updatePrediction_def split: option.splits)
  have r: "r = \<lparr> left_p = 60 - int (currentLevel_g g),
      dpL = js_or (paceMap st (activePace_g g)) (median st),
      pred = addDays now (of_int (60 - int (currentLevel_g g)) *
               js_or (paceMap st (activePace_g g)) (median st)),
      fast_p = addDays now (of_int (60 - int (currentLevel_g g)) * fast st),
      mid_p = addDays now (of_int (60 - int (currentLevel_g g)) * median st),
      slow_p = addDays now (of_int (60 - int (currentLevel_g g)) * slow st) \<rparr>"
    using assms unfolding updatePrediction_def st by (simp add: Let_def)
  have a: "left_p r = 60 - int (currentLevel_g g)"
    unfolding r by simp
  have b: "pred r = to_integer (of_int now + of_int (left_p r) * dpL r * 86400000)"
    unfolding r by (simp add: addDays_def)
  have b': "fast_p r = to_integer (of_int now + of_int (left_p r) * fast st * 86400000)"
    "mid_p r = to_integer (of_int now + of_int (left_p r) * median st * 86400000)"
    "slow_p r = to_integer (of_int now + of_int (left_p r) * slow st * 86400000)"
    unfolding r by (simp_all add: addDays_def)
  have c: "\<bar>of_int (pred r) - (of_int now + of_int (left_p r) * dpL r * 86400000)\<bar> < 1"
    by (subst b) (rule to_integer_close)
  have d: "pred r = now \<and> fast_p r = now \<and> mid_p r = now \<and> slow_p r = now"
    if "currentLevel_g g = 60"
    using that unfolding r by (simp add: addDays_def to_integer_of_int)
  show ?thesis
    using a b b' c d unfolding st by simp
qed

text \<open>
  The theorem at level 57 with a pace of 3.5 days (10.5 days ahead), and at level 60.
\<close>

theorem forecast_formula_witness:
  "updatePrediction (state_at 57 (7 / 2)) 1000 =
     Some \<lparr> left_p = 3, dpL = 7 / 2, pred = 907201000, fast_p = 907201000,
            mid_p = 907201000, slow_p = 907201000 \<rparr> \<and>
   (907201000 :: int) = to_integer (of_int 1000 + of_int 3 * (7 / 2) * 86400000) \<and>
   updatePrediction (state_at 60 7) 1000 =
     Some \<lparr> left_p = 0, dpL = 7, pred = 1000, fast_p = 1000, mid_p = 1000, slow_p = 1000 \<rparr>"
proof -
  have a: "updatePrediction (state_at 57 (7 / 2)) 1000 =
     Some \<lparr> left_p = 3, dpL = 7 / 2, pred = 907201000, fast_p = 907201000,
            mid_p = 907201000, slow_p = 907201000 \<rparr>"
    by code_simp
  have b: "updatePrediction (state_at 60 7) 1000 =
     Some \<lparr> left_p = 0, dpL = 7, pred = 1000, fast_p = 1000, mid_p = 1000, slow_p = 1000 \<rparr>"
    by code_simp
  show ?thesis
    using forecast_formula [OF a] forecast_formula [OF b] a b by simp
qed

text \<open>
  Above the ceiling nothing is clamped: at level 61 with a pace of 7 days the number of
  levels left is -1 and the forecast lies 7 days before the current instant.
\<close>

theorem forecast_clamp_counterexample:
  "60 \<le> currentLevel_g (state_at 61 7) \<and>
   map_option left_p (updatePrediction (state_at 61 7) 1000) = Some (- 1) \<and>
   map_option pred (updatePrediction (state_at 61 7) 1000) = Some (- 604799000) \<and>
   map_option pred (updatePrediction (state_at 61 7) 1000) \<noteq> Some 1000"
  by code_simp

section \<open>Properties of the speedup analysis\<close>

text \<open>
  Claim C10, as the code has it. \<open>computeSpeedup\<close> reads the module variable \<open>_stats\<close>, and
  the variant that simulates the ideal pace reads the clock: the result is a function of
  the review statistics, of the median of \<open>_stats\<close> and of the clock reading in the zone
  of the host. Two invocations on equal review statistics return equal results whenever
  \<open>_stats\<close> has the same median (or is \<open>null\<close>) in both and the clock reads the same,
  whatever the current level and the selected pace are; this holds for the variant that
  simulates the ideal pace and for the variant with the constant ideal pace.
\<close>

theorem computeSpeedup_depends_on_median:
  assumes "map_option median (stats_g g) = map_option median (stats_g g')"
  shows "computeSpeedup g z now rs = computeSpeedup g' z now rs \<and>
         computeSpeedup_minimum g rs = computeSpeedup_minimum g' rs"
proof -
  have "windowDaysPerLevel (calcWindowRoadTo60 g z now)
      = windowDaysPerLevel (calcWindowRoadTo60 g' z now)"
    unfolding calcWindowRoadTo60_def Let_def by simp
  then show ?thesis
    using assms
    unfolding computeSpeedup_def computeSpeedup_minimum_def Let_def
    by (auto split: option.splits prod.splits)
qed

text \<open>
  The theorem at two states with median 9 that differ in the current level, in US
  Eastern time at 2024-03-05 07:00 EST.
\<close>

theorem computeSpeedup_depends_on_median_witness:
  "map_option median (stats_g (state_at 10 9)) = map_option median (stats_g (state_at 33 9)) \<and>
   computeSpeedup (state_at 10 9) eastern_2024 1709640000000 sample_reviews
     = computeSpeedup (state_at 33 9) eastern_2024 1709640000000 sample_reviews \<and>
   computeSpeedup_minimum (state_at 10 9) sample_reviews
     = computeSpeedup_minimum (state_at 33 9) sample_reviews"
proof -
  have a: "map_option median (stats_g (state_at 10 9))
      = map_option median (stats_g (state_at 33 9))"
    by code_simp
  show ?thesis
    using computeSpeedup_depends_on_median [OF a] a by blast
qed

text \<open>
  On the same review statistics the result changes with \<open>_stats\<close>, in both variants. In
  the simulating variant it also changes with the clock: in US Eastern time the simulated
  level that starts on 2024-03-05 crosses the change of 2024-03-10 and takes 8 days less
  one hour, so that a median of 9 days loses 25/24 days per level, against 1 day for the
  level that starts on 2024-01-09.
\<close>

theorem computeSpeedup_hidden_state_counterexample:
  "computeSpeedup (state_at 10 9) (fixed_zone 0) 0 sample_reviews
     \<noteq> computeSpeedup (state_at 10 12) (fixed_zone 0) 0 sample_reviews \<and>
   computeSpeedup_minimum (state_at 10 5) sample_reviews
     \<noteq> computeSpeedup_minimum (state_at 10 9) sample_reviews \<and>
   map_sum id windowLostPerLevel
       (computeSpeedup (state_at 10 9) eastern_2024 1709640000000 sample_reviews)
     = Inr (25 / 24) \<and>
   map_sum id windowLostPerLevel
       (computeSpeedup (state_at 10 9) eastern_2024 1704801600000 sample_reviews)
     = Inr 1"
  by code_simp

end
